theory Spec2Isabelle
  imports Main "HOL-Library.List_Lexorder" "HOL-Library.Char_ord" "HOL-Library.Product_Lexorder"
begin

section \<open>Python strings\<close>

text \<open>
  A Python \<open>str\<close> is a sequence of code points. The model takes a \<open>char\<close> to be one code
  point in the range 0-255 (Latin-1, which covers the English and French texts of the
  corpus), so \<open>length\<close> counts code points as Python's \<open>len\<close> does, and \<open>of_char\<close> is
  \<open>ord\<close>. The three character
  classes below are those of CPython 3 on that range: \<open>\w\<close> of the \<open>re\<close> module for
  \<open>str\<close> patterns, \<open>str.isspace\<close> (used by \<open>str.split()\<close> and \<open>str.strip()\<close>) and
  \<open>str.lower\<close>.
\<close>

definition is_word_char :: "char \<Rightarrow> bool" where
  "is_word_char c =
     (let n = (of_char c :: int) in
        (48 \<le> n \<and> n \<le> 57) \<or> (65 \<le> n \<and> n \<le> 90) \<or> n = 95 \<or> (97 \<le> n \<and> n \<le> 122) \<or>
        n = 170 \<or> n = 178 \<or> n = 179 \<or> n = 181 \<or> n = 185 \<or> n = 186 \<or>
        (188 \<le> n \<and> n \<le> 190) \<or> (192 \<le> n \<and> n \<le> 214) \<or>
        (216 \<le> n \<and> n \<le> 246) \<or> (248 \<le> n \<and> n \<le> 255))"

definition is_space :: "char \<Rightarrow> bool" where
  "is_space c =
     (let n = (of_char c :: int) in
        (9 \<le> n \<and> n \<le> 13) \<or> (28 \<le> n \<and> n \<le> 32) \<or> n = 133 \<or> n = 160)"

definition lower_char :: "char \<Rightarrow> char" where
  "lower_char c =
     (let n = (of_char c :: int) in
        if (65 \<le> n \<and> n \<le> 90) \<or> (192 \<le> n \<and> n \<le> 222 \<and> n \<noteq> 215)
        then char_of (n + 32) else c)"

text \<open>\<open>s.lower()\<close>\<close>

definition py_lower :: "string \<Rightarrow> string" where
  "py_lower s = map lower_char s"

text \<open>\<open>s.strip()\<close>: whitespace removed at both ends.\<close>

definition py_strip :: "string \<Rightarrow> string" where
  "py_strip s = rev (dropWhile is_space (rev (dropWhile is_space s)))"

text \<open>
  \<open>s.split()\<close>: the maximal runs of non-whitespace characters, in order. The second
  argument collects the characters of the token being read, last one first.
\<close>

fun split_from :: "string \<Rightarrow> string \<Rightarrow> string list" where
  "split_from [] cur = (if cur = [] then [] else [rev cur])"
| "split_from (c # cs) cur =
     (if is_space c
      then (if cur = [] then split_from cs [] else rev cur # split_from cs [])
      else split_from cs (c # cur))"

definition py_split :: "string \<Rightarrow> string list" where
  "py_split s = split_from s []"

text \<open>\<open>sep.join(xs)\<close>\<close>

fun py_join :: "string \<Rightarrow> string list \<Rightarrow> string" where
  "py_join sep [] = []"
| "py_join sep [x] = x"
| "py_join sep (x # y # ys) = x @ sep @ py_join sep (y # ys)"

text \<open>
  \<open>xs[start:stop]\<close> for integer bounds: a negative bound counts from the end, and both
  bounds are clamped to the list, so a slice never raises.
\<close>

definition slice_bound :: "int \<Rightarrow> nat \<Rightarrow> nat" where
  "slice_bound i n = (if i < 0 then nat (max 0 (i + int n)) else min (nat i) n)"

definition py_slice :: "'a list \<Rightarrow> int \<Rightarrow> int \<Rightarrow> 'a list" where
  "py_slice xs start stop =
     (let a = slice_bound start (length xs); b = slice_bound stop (length xs)
      in take (b - a) (drop a xs))"

section \<open>The word-boundary pattern\<close>

text \<open>
  Both \<open>get_context\<close> and \<open>search_text\<close> build their pattern as
  \<^verbatim>\<open>r'\b' + re.escape(query.lower()) + r'\b'\<close>.
  \<open>re.escape\<close> puts a backslash before every character that is special in a regular
  expression, so the middle part matches the lower-cased query character by character
  and nothing else. The pattern is therefore given by that literal.
\<close>

datatype pattern = WordBounded string

definition word_pattern :: "string \<Rightarrow> pattern" where
  "word_pattern query = WordBounded (py_lower query)"

text \<open>
  \<open>\b\<close> at offset \<open>i\<close> of \<open>s\<close>: exactly one of the characters before and after the offset
  is a word character; outside the string there is none.
\<close>

definition at_boundary :: "string \<Rightarrow> nat \<Rightarrow> bool" where
  "at_boundary s i =
     ((0 < i \<and> i \<le> length s \<and> is_word_char (s ! (i - 1))) \<noteq>
      (i < length s \<and> is_word_char (s ! i)))"

fun match_at :: "pattern \<Rightarrow> string \<Rightarrow> nat \<Rightarrow> bool" where
  "match_at (WordBounded lit) s i =
     (at_boundary s i \<and> take (length lit) (drop i s) = lit \<and> at_boundary s (i + length lit))"

fun match_len :: "pattern \<Rightarrow> nat" where
  "match_len (WordBounded lit) = length lit"

text \<open>\<open>re.search(pattern, s)\<close> as a truth value: the pattern matches at some offset.\<close>

definition re_search :: "pattern \<Rightarrow> string \<Rightarrow> bool" where
  "re_search p s = list_ex (match_at p s) [0..<Suc (length s)]"

text \<open>
  \<open>re.finditer(pattern, s)\<close>, as the list of \<open>match.start()\<close>: the scan takes the
  leftmost match at or after the current offset and resumes at its end; after an empty
  match it resumes one character further.
\<close>

function finditer_from :: "pattern \<Rightarrow> string \<Rightarrow> nat \<Rightarrow> nat list" where
  "finditer_from p s i =
     (if length s < i then []
      else if match_at p s i then i # finditer_from p s (i + max 1 (match_len p))
      else finditer_from p s (Suc i))"
  by pat_completeness auto
termination
  by (relation "measure (\<lambda>(p, s, i). Suc (length s) - i)") auto

declare finditer_from.simps [simp del]

definition re_finditer :: "pattern \<Rightarrow> string \<Rightarrow> nat list" where
  "re_finditer p s = finditer_from p s 0"

section \<open>The context extractor\<close>

text \<open>The body of the loop over the matches in \<open>get_context\<close>, for one \<open>match.start()\<close>.\<close>

definition word_pos_of :: "string \<Rightarrow> nat \<Rightarrow> int" where
  "word_pos_of text char_pos = max 0 (int (length (py_split (take char_pos text))) - 1)"

definition highlight :: "pattern \<Rightarrow> string \<Rightarrow> string" where
  "highlight p word = (if re_search p (py_lower word) then ''**'' @ word @ ''**'' else word)"

definition start_idx :: "string \<Rightarrow> int \<Rightarrow> nat \<Rightarrow> int" where
  "start_idx text context_words char_pos = max 0 (word_pos_of text char_pos - context_words)"

definition end_idx :: "string \<Rightarrow> string list \<Rightarrow> int \<Rightarrow> nat \<Rightarrow> int" where
  "end_idx text words context_words char_pos =
     min (int (length words)) (word_pos_of text char_pos + context_words + 1)"

definition match_context :: "string \<Rightarrow> string list \<Rightarrow> pattern \<Rightarrow> int \<Rightarrow> nat \<Rightarrow> string" where
  "match_context text words p context_words char_pos =
     (let context_words_list =
            py_slice words (start_idx text context_words char_pos)
              (end_idx text words context_words char_pos);
          highlighted_context = map (highlight p) context_words_list;
          context = py_join '' '' highlighted_context;
          context = (if 0 < start_idx text context_words char_pos
                     then ''...'' @ context else context);
          context = (if end_idx text words context_words char_pos < int (length words)
                     then context @ ''...'' else context)
      in context)"

definition get_context :: "string \<Rightarrow> string \<Rightarrow> int \<Rightarrow> string" where
  "get_context text query context_words =
     (let p = word_pattern query;
          text_lower = py_lower text;
          matches = re_finditer p text_lower
      in if matches = [] then []
         else let words = py_split text
              in py_join '' | '' (map (match_context text words p context_words) matches))"

section \<open>Tables\<close>

text \<open>
  A table that \<open>pandas\<close> holds is a list of rows in index order, a row a record of its
  cells, and a cell that is missing (NaN) is \<open>None\<close>. The full dataset is read with the
  columns \<open>itemid\<close>, \<open>appno\<close>, \<open>docname\<close>, \<open>doctype\<close>, \<open>languageisocode\<close>, \<open>article\<close>,
  \<open>violation\<close> and \<open>year\<close>; the search reads \<open>itemid\<close> and \<open>languageisocode\<close> only, and the
  six others travel together in \<open>other_columns\<close>. The law table has \<open>itemid\<close> and
  \<open>THE_LAW\<close>. The columns are typed: an identifier is a string and is never missing, a
  language code and a law text are strings where they are present. Stripping the
  headers, which \<open>__init__\<close> does, changes no field.

  A column has a dtype as well. \<open>read_csv\<close> gives the dtype \<open>float64\<close> to a column
  whose cells are all missing and \<open>object\<close> to a column that holds a string, or that
  has no cell at all; a left merge, a selection of rows and a copy keep the dtype of
  a column of the left table. Only the dtype of \<open>languageisocode\<close> bears on the search:
  the accessor \<open>.str\<close> raises \<open>AttributeError\<close> on a column that is not of strings.
\<close>

datatype py_error = AttributeError

datatype dtype = Object_dtype | Float64_dtype

definition read_csv_dtype :: "string option list \<Rightarrow> dtype" where
  "read_csv_dtype cells =
     (if cells \<noteq> [] \<and> list_all (\<lambda>cell. cell = None) cells then Float64_dtype
      else Object_dtype)"

record 'm df_all_row =
  itemid :: string
  languageisocode :: "string option"
  other_columns :: 'm

record law_row =
  law_itemid :: string
  law_THE_LAW :: "string option"

record 'm case_row = "'m df_all_row" +
  THE_LAW :: "string option"

text \<open>The merged table: its rows, and the dtype of its column \<open>languageisocode\<close>.\<close>

record 'm table =
  language_dtype :: dtype
  table_rows :: "'m case_row list"

text \<open>
  The query table as \<open>__init__\<close> leaves it: the headers stripped, and each row a map from
  header to cell.
\<close>

record query_table =
  q_columns :: "string list"
  q_rows :: "(string \<rightharpoonup> string) list"

text \<open>
  The dictionaries that \<open>search_text\<close> builds. The key \<open>query_language\<close> is absent until
  \<open>search_all_queries\<close> sets it.
\<close>

record match_record =
  r_itemid :: string
  r_language :: "string option"
  r_query_word :: string
  r_context :: string
  r_THE_LAW :: string
  r_query_language :: "string option"

text \<open>The dictionaries of \<open>grouped_results\<close>, the rows of the table returned.\<close>

record grouped_result =
  g_itemid :: string
  g_language :: "string option"
  g_query_word :: string
  g_query_language :: "string option"
  combined_context :: string
  match_count :: nat
  g_THE_LAW :: string

section \<open>Corpus assembly\<close>

text \<open>
  \<open>df_all.merge(law, how='left', on='itemid')\<close>: the rows of the left table in order, each
  once per law row of the same \<open>itemid\<close> (in the law table's order), or once with a
  missing \<open>THE_LAW\<close> when there is none.
\<close>

definition with_law :: "'m df_all_row \<Rightarrow> string option \<Rightarrow> 'm case_row" where
  "with_law d t =
     \<lparr>itemid = itemid d, languageisocode = languageisocode d,
      other_columns = other_columns d, THE_LAW = t\<rparr>"

definition merge_left :: "'m df_all_row list \<Rightarrow> law_row list \<Rightarrow> 'm case_row list" where
  "merge_left df_all law =
     concat (map (\<lambda>d. let ms = filter (\<lambda>l. law_itemid l = itemid d) law
                       in if ms = [] then [with_law d None]
                          else map (\<lambda>l. with_law d (law_THE_LAW l)) ms) df_all)"

text \<open>\<open>merged.loc[~pd.isna(merged['THE_LAW'])]\<close>, with \<open>nrows=rows\<close> applied to the law table.\<close>

definition read_law :: "law_row list \<Rightarrow> nat option \<Rightarrow> law_row list" where
  "read_law law_file rows = (case rows of None \<Rightarrow> law_file | Some n \<Rightarrow> take n law_file)"

definition assemble :: "'m df_all_row list \<Rightarrow> law_row list \<Rightarrow> 'm case_row list" where
  "assemble df_all law = filter (\<lambda>r. THE_LAW r \<noteq> None) (merge_left df_all law)"

section \<open>The searcher and its store\<close>

text \<open>
  \<open>self.dataset\<close> is a reference to a table object. The store holds the table objects of
  the run, addressed by position; creating a table appends it. \<open>DataFrame.copy()\<close> and a
  boolean-mask selection each create a new table and leave the one they read alone.
\<close>

type_synonym 'm store = "'m table list"

record 'm searcher =
  df_all :: "'m df_all_row list"
  law :: "law_row list"
  queries :: query_table
  dataset :: nat

definition new_table :: "'m table \<Rightarrow> 'm store \<Rightarrow> nat \<times> 'm store" where
  "new_table t h = (length h, h @ [t])"

definition df_copy :: "nat \<Rightarrow> 'm store \<Rightarrow> nat \<times> 'm store" where
  "df_copy a h = new_table (h ! a) h"

definition df_select :: "('m case_row \<Rightarrow> bool) \<Rightarrow> nat \<Rightarrow> 'm store \<Rightarrow> nat \<times> 'm store" where
  "df_select keep a h =
     new_table ((h ! a)\<lparr>table_rows := filter keep (table_rows (h ! a))\<rparr>) h"

definition init ::
  "'m df_all_row list \<Rightarrow> law_row list \<Rightarrow> query_table \<Rightarrow> nat option \<Rightarrow> 'm store \<Rightarrow>
   'm searcher \<times> 'm store" where
  "init dataset_file law_file queries_file rows h =
     (let law_table = read_law law_file rows;
          (a, h') = new_table
                      \<lparr>language_dtype = read_csv_dtype (map languageisocode dataset_file),
                       table_rows = assemble dataset_file law_table\<rparr> h
      in (\<lparr>df_all = dataset_file, law = law_table, queries = queries_file, dataset = a\<rparr>, h'))"

section \<open>The matcher\<close>

text \<open>
  The mask \<open>search_data[LANGUAGE].str.lower() == language_filter.lower()\<close>: a missing
  language code compares unequal.
\<close>

definition language_mask :: "string \<Rightarrow> 'm case_row \<Rightarrow> bool" where
  "language_mask language_filter row =
     (case languageisocode row of None \<Rightarrow> False
      | Some code \<Rightarrow> py_lower code = py_lower language_filter)"

text \<open>The loop over \<open>search_data.iterrows()\<close>.\<close>

fun scan_rows :: "string \<Rightarrow> int \<Rightarrow> 'm case_row list \<Rightarrow> match_record list" where
  "scan_rows query_word context_words [] = []"
| "scan_rows query_word context_words (row # rest) =
     (case THE_LAW row of
        None \<Rightarrow> scan_rows query_word context_words rest
      | Some fulltext \<Rightarrow>
          if re_search (word_pattern query_word) (py_lower fulltext)
          then \<lparr>r_itemid = itemid row, r_language = languageisocode row,
                r_query_word = query_word,
                r_context = get_context fulltext query_word context_words,
                r_THE_LAW = fulltext, r_query_language = None\<rparr>
               # scan_rows query_word context_words rest
          else scan_rows query_word context_words rest)"

text \<open>
  \<open>language_filter\<close> is \<open>None\<close> or a string; \<open>if language_filter:\<close> is false for both
  \<open>None\<close> and the empty string. With a filter, \<open>search_data[LANGUAGE].str\<close> raises
  where the column is not of strings, and the exception leaves \<open>search_text\<close>. The
  result is the outcome of the call, an error or the list of match records, and the
  store the call leaves.
\<close>

definition search_text ::
  "'m searcher \<Rightarrow> string \<Rightarrow> string option \<Rightarrow> int \<Rightarrow> 'm store \<Rightarrow>
   (py_error + match_record list) \<times> 'm store" where
  "search_text self query_word language_filter context_words h =
     (let (search_data, h1) = df_copy (dataset self) h;
          filtered =
            (case language_filter of
               None \<Rightarrow> Inr (search_data, h1)
             | Some f \<Rightarrow>
                 if f = [] then Inr (search_data, h1)
                 else if language_dtype (h1 ! search_data) = Object_dtype
                      then Inr (df_select (language_mask f) search_data h1)
                      else Inl AttributeError)
      in case filtered of
           Inl e \<Rightarrow> (Inl e, h1)
         | Inr (search_data, h2) \<Rightarrow>
             (Inr (scan_rows query_word context_words (table_rows (h2 ! search_data))), h2))"

section \<open>The aggregator\<close>

definition query_columns :: "query_table \<Rightarrow> string list" where
  "query_columns qt =
     (let cols = filter (\<lambda>col. py_lower col \<in> set [''english'', ''french'', ''en'', ''fr''])
                   (q_columns qt)
      in if cols = [] then q_columns qt else cols)"

definition language_filter_of :: "string \<Rightarrow> string option" where
  "language_filter_of col =
     (if py_lower col \<in> set [''english'', ''en''] then Some ''eng''
      else if py_lower col \<in> set [''french'', ''fr''] then Some ''fre''
      else None)"

text \<open>
  The inner loop, over the columns of one query row. An exception of \<open>search_text\<close>
  is not caught: it ends the loops.
\<close>

fun search_columns ::
  "'m searcher \<Rightarrow> int \<Rightarrow> (string \<rightharpoonup> string) \<Rightarrow> string list \<Rightarrow> 'm store \<Rightarrow>
   (py_error + match_record list) \<times> 'm store" where
  "search_columns self context_words query_row [] h = (Inr [], h)"
| "search_columns self context_words query_row (col # cols) h =
     (case query_row col of
        None \<Rightarrow> search_columns self context_words query_row cols h
      | Some cell \<Rightarrow>
          let query_word = py_strip cell in
          if query_word = [] then search_columns self context_words query_row cols h
          else (case search_text self query_word (language_filter_of col) context_words h of
                  (Inl e, h1) \<Rightarrow> (Inl e, h1)
                | (Inr results, h1) \<Rightarrow>
                    (case search_columns self context_words query_row cols h1 of
                       (Inl e, h2) \<Rightarrow> (Inl e, h2)
                     | (Inr later, h2) \<Rightarrow>
                         (Inr (map (\<lambda>result. result\<lparr>r_query_language := Some col\<rparr>) results
                               @ later), h2))))"

text \<open>The outer loop, over \<open>self.queries.iterrows()\<close>.\<close>

fun search_rows ::
  "'m searcher \<Rightarrow> int \<Rightarrow> string list \<Rightarrow> (string \<rightharpoonup> string) list \<Rightarrow> 'm store \<Rightarrow>
   (py_error + match_record list) \<times> 'm store" where
  "search_rows self context_words cols [] h = (Inr [], h)"
| "search_rows self context_words cols (query_row # rest) h =
     (case search_columns self context_words query_row cols h of
        (Inl e, h1) \<Rightarrow> (Inl e, h1)
      | (Inr results, h1) \<Rightarrow>
          (case search_rows self context_words cols rest h1 of
             (Inl e, h2) \<Rightarrow> (Inl e, h2)
           | (Inr later, h2) \<Rightarrow> (Inr (results @ later), h2)))"

text \<open>
  \<open>results_df.groupby(['itemid', 'query_word'])\<close>: one group per distinct key, the keys in
  sorted order, each group holding the rows of its key in their order in the table.
\<close>

definition group_key :: "match_record \<Rightarrow> string \<times> string" where
  "group_key r = (r_itemid r, r_query_word r)"

definition groupby :: "match_record list \<Rightarrow> ((string \<times> string) \<times> match_record list) list" where
  "groupby results_df =
     map (\<lambda>k. (k, filter (\<lambda>r. group_key r = k) results_df))
       (sort (remdups (map group_key results_df)))"

text \<open>
  The body of the loop over the groups. \<open>group.iloc[0]\<close> is the first row of the group;
  \<open>groupby\<close> yields no empty group.
\<close>

fun grouped_result_of :: "(string \<times> string) \<times> match_record list \<Rightarrow> grouped_result list" where
  "grouped_result_of ((item, query_word), []) = []"
| "grouped_result_of ((item, query_word), first # others) =
     (let contexts = map r_context (first # others);
          combined = py_join '' | '' (filter (\<lambda>ctx. ctx \<noteq> []) contexts)
      in [\<lparr>g_itemid = item, g_language = r_language first, g_query_word = query_word,
            g_query_language = r_query_language first, combined_context = combined,
            match_count = length (first # others), g_THE_LAW = r_THE_LAW first\<rparr>])"

definition summary_key :: "grouped_result \<Rightarrow> string \<times> string" where
  "summary_key g = (g_itemid g, g_query_word g)"

definition all_results_of ::
  "'m searcher \<Rightarrow> int \<Rightarrow> 'm store \<Rightarrow> (py_error + match_record list) \<times> 'm store" where
  "all_results_of self context_words h =
     search_rows self context_words (query_columns (queries self)) (q_rows (queries self)) h"

text \<open>
  The table returned is the list of its rows; \<open>pd.DataFrame()\<close> is the empty table. An
  exception raised in the loops leaves \<open>search_all_queries\<close> as it is.
\<close>

definition search_all_queries ::
  "'m searcher \<Rightarrow> int \<Rightarrow> 'm store \<Rightarrow> (py_error + grouped_result list) \<times> 'm store" where
  "search_all_queries self context_words h =
     (case all_results_of self context_words h of
        (Inl e, h') \<Rightarrow> (Inl e, h')
      | (Inr all_results, h') \<Rightarrow>
          if all_results = [] then (Inr [], h')
          else (Inr (concat (map grouped_result_of (groupby all_results))), h'))"

section \<open>A run of the searcher\<close>

text \<open>
  After \<open>__init__\<close>, a run is a sequence of calls of the two search methods on the same
  searcher, each starting in the store the previous one left.
\<close>

datatype call = SearchText string "string option" int | SearchAllQueries int

fun perform :: "'m searcher \<Rightarrow> call \<Rightarrow> 'm store \<Rightarrow> 'm store" where
  "perform self (SearchText query_word language_filter context_words) h =
     snd (search_text self query_word language_filter context_words h)"
| "perform self (SearchAllQueries context_words) h =
     snd (search_all_queries self context_words h)"

fun run :: "'m searcher \<Rightarrow> call list \<Rightarrow> 'm store \<Rightarrow> 'm store" where
  "run self [] h = h"
| "run self (c # cs) h = run self cs (perform self c h)"

section \<open>Notions the properties are stated with\<close>

text \<open>
  The segments of a string delimited by the separator \<open>" | "\<close>, as \<open>s.split(" | ")\<close>
  returns them: the scan cuts at each occurrence of the separator, left to right. The
  second argument collects the segment being read, last character first.
\<close>

fun segments_from :: "string \<Rightarrow> string \<Rightarrow> string list" where
  "segments_from [] cur = [rev cur]"
| "segments_from (a # b # c # rest) cur =
     (if [a, b, c] = '' | '' then rev cur # segments_from rest []
      else segments_from (b # c # rest) (a # cur))"
| "segments_from (a # rest) cur = segments_from rest (a # cur)"

definition segments :: "string \<Rightarrow> string list" where
  "segments s = segments_from s []"


definition run_after :: "string \<Rightarrow> nat \<Rightarrow> string" where
  "run_after text i = takeWhile (\<lambda>c. \<not> is_space c) (drop i text)"




text \<open>
  The contexts that a summary record folds: the non-empty contexts of the match records
  of its pair, in the order of the match records.
\<close>

definition folded_contexts :: "match_record list \<Rightarrow> string \<times> string \<Rightarrow> string list" where
  "folded_contexts all_results key =
     filter (\<lambda>ctx. ctx \<noteq> []) (map r_context (filter (\<lambda>r. group_key r = key) all_results))"

text \<open>
  A query term read as a regular expression, which is how the tests of the repository
  use \<open>search_text\<close> (\<open>'(moyens de)? subsistance'\<close>): literals, sequence, an optional
  group and \<open>\b\<close>. \<open>match_ends r s i\<close> lists the offsets at which a match of \<open>r\<close> that
  starts at offset \<open>i\<close> can end.
\<close>

datatype regex = Lit string | Opt regex | Seq regex regex | WordBoundary

fun match_ends :: "regex \<Rightarrow> string \<Rightarrow> nat \<Rightarrow> nat list" where
  "match_ends (Lit lit) s i = (if take (length lit) (drop i s) = lit then [i + length lit] else [])"
| "match_ends (Opt r) s i = match_ends r s i @ [i]"
| "match_ends (Seq r1 r2) s i = concat (map (match_ends r2 s) (match_ends r1 s i))"
| "match_ends WordBoundary s i = (if at_boundary s i then [i] else [])"

definition regex_search :: "regex \<Rightarrow> string \<Rightarrow> bool" where
  "regex_search r s = list_ex (\<lambda>i. match_ends r s i \<noteq> []) [0..<Suc (length s)]"

definition word_bounded :: "regex \<Rightarrow> regex" where
  "word_bounded r = Seq WordBoundary (Seq r WordBoundary)"

section \<open>A small corpus\<close>

text \<open>
  Three cases with a law section, one without (\<open>1004\<close>), one whose law section is
  empty (\<open>1006\<close>), and a law section of a case that the full dataset does not have
  (\<open>1005\<close>). The query table has one row with the same term in both columns and one
  that repeats the English term with blanks around it.
\<close>

definition example_dataset_file :: "unit df_all_row list" where
  "example_dataset_file =
     [\<lparr>itemid = ''1001'', languageisocode = Some ''fre'', other_columns = ()\<rparr>,
      \<lparr>itemid = ''1002'', languageisocode = Some ''eng'', other_columns = ()\<rparr>,
      \<lparr>itemid = ''1003'', languageisocode = Some ''fre'', other_columns = ()\<rparr>,
      \<lparr>itemid = ''1004'', languageisocode = Some ''eng'', other_columns = ()\<rparr>,
      \<lparr>itemid = ''1006'', languageisocode = Some ''eng'', other_columns = ()\<rparr>]"

definition example_law_file :: "law_row list" where
  "example_law_file =
     [\<lparr>law_itemid = ''1001'',
       law_THE_LAW = Some ''La gene morale et la subsistance des familles.''\<rparr>,
      \<lparr>law_itemid = ''1005'', law_THE_LAW = Some ''Destitution.''\<rparr>,
      \<lparr>law_itemid = ''1002'',
       law_THE_LAW = Some ''Destitution and the means of subsistence.''\<rparr>,
      \<lparr>law_itemid = ''1006'', law_THE_LAW = None\<rparr>,
      \<lparr>law_itemid = ''1003'', law_THE_LAW = Some ''La destitution des familles.''\<rparr>]"

definition example_queries :: query_table where
  "example_queries =
     \<lparr>q_columns = [''English'', ''French''],
      q_rows = [[''English'' \<mapsto> ''destitution'', ''French'' \<mapsto> ''destitution''],
                [''English'' \<mapsto> '' destitution '', ''French'' \<mapsto> ''subsistance'']]\<rparr>"

text \<open>The same full dataset with every language code missing.\<close>

definition example_uncoded_file :: "unit df_all_row list" where
  "example_uncoded_file = map (\<lambda>d. d\<lparr>languageisocode := None\<rparr>) example_dataset_file"

definition example_searcher :: "unit searcher" where
  "example_searcher =
     fst (init example_dataset_file example_law_file example_queries None [])"

definition example_store :: "unit store" where
  "example_store =
     snd (init example_dataset_file example_law_file example_queries None [])"

definition example_uncoded_searcher :: "unit searcher" where
  "example_uncoded_searcher =
     fst (init example_uncoded_file example_law_file example_queries None [])"

definition example_uncoded_store :: "unit store" where
  "example_uncoded_store =
     snd (init example_uncoded_file example_law_file example_queries None [])"

text \<open>A query table whose only term is in no text of the corpus.\<close>

definition example_unmatched_searcher :: "unit searcher" where
  "example_unmatched_searcher =
     example_searcher\<lparr>queries := \<lparr>q_columns = [''English''],
                                      q_rows = [[''English'' \<mapsto> ''poverty'']]\<rparr>\<rparr>"

section \<open>Strings, patterns and windows: basic facts\<close>


lemma ord_range: "0 \<le> (of_char c :: int) \<and> (of_char c :: int) < 256"
proof -
  have "(of_char c :: int) = int (of_char c)" by (simp add: of_nat_of_char)
  moreover have "(of_char c :: nat) < 256" by simp
  ultimately show ?thesis by simp
qed

lemma is_space_lower_char [simp]: "is_space (lower_char c) = is_space c"
proof -
  have "0 \<le> (of_char c :: int) \<and> (of_char c :: int) < 256" by (rule ord_range)
  then show ?thesis
    unfolding lower_char_def is_space_def Let_def
    by (auto simp: of_char_of)
qed

lemma split_from_nonempty [simp]:
  "split_from s cur \<noteq> [] \<longleftrightarrow> cur \<noteq> [] \<or> (\<exists>c\<in>set s. \<not> is_space c)"
  by (induction s arbitrary: cur) auto


lemma split_from_chars: "t \<in> set (split_from s cur) \<Longrightarrow> set t \<subseteq> set s \<union> set cur"
  by (induction s arbitrary: cur) (fastforce split: if_splits)+

lemma split_from_append_le: "length (split_from xs cur) \<le> length (split_from (xs @ ys) cur)"
proof (induction xs arbitrary: cur)
  case Nil
  have "cur \<noteq> [] \<Longrightarrow> split_from ys cur \<noteq> []" by simp
  then show ?case by (cases "split_from ys cur") auto
next
  case (Cons c cs)
  then show ?case by simp
qed








lemma match_context_parts:
  "match_context text words p context_words char_pos =
     (if 0 < start_idx text context_words char_pos then ''...'' else []) @
     py_join '' '' (map (highlight p)
       (py_slice words (start_idx text context_words char_pos)
                       (end_idx text words context_words char_pos))) @
     (if end_idx text words context_words char_pos < int (length words) then ''...'' else [])"
  unfolding match_context_def Let_def by simp




lemma py_join_chars: "set (py_join sep xs) \<subseteq> set sep \<union> \<Union> (set ` set xs)"
  by (induction sep xs rule: py_join.induct) auto

lemma py_slice_subset: "set (py_slice xs a b) \<subseteq> set xs"
  unfolding py_slice_def Let_def
  by (meson set_take_subset set_drop_subset subset_trans)

lemma highlight_chars: "set (highlight p w) \<subseteq> insert CHR ''*'' (set w)"
  by (auto simp: highlight_def)

lemma py_split_chars: "w \<in> set (py_split text) \<Longrightarrow> set w \<subseteq> set text"
  using split_from_chars [of w "text" "[]"] by (simp add: py_split_def)

lemma match_context_chars:
  "set (match_context text (py_split text) p context_words char_pos) \<subseteq>
     set text \<union> {CHR ''*'', CHR '' '', CHR ''.''}"
proof -
  have "\<Union> (set ` set (map (highlight p)
           (py_slice (py_split text) (start_idx text context_words char_pos)
              (end_idx text (py_split text) context_words char_pos)))) \<subseteq>
        insert CHR ''*'' (set text)"
    using py_slice_subset highlight_chars py_split_chars by fastforce
  then have "set (py_join '' '' (map (highlight p)
           (py_slice (py_split text) (start_idx text context_words char_pos)
              (end_idx text (py_split text) context_words char_pos)))) \<subseteq>
        set text \<union> {CHR ''*'', CHR '' ''}"
    using py_join_chars [of "'' ''"] by fastforce
  then show ?thesis unfolding match_context_parts by auto
qed




section \<open>Separator-delimited segments\<close>

lemma segments_from_Cons:
  "segments_from (a # s) cur =
     (if a = CHR '' '' \<and> take 2 s = ''| '' then rev cur # segments_from (drop 2 s) []
      else segments_from s (a # cur))"
proof (cases s)
  case Nil
  then show ?thesis by simp
next
  case (Cons b s')
  then show ?thesis by (cases s') auto
qed

lemma segments_from_no_bar:
  "CHR ''|'' \<notin> set x \<Longrightarrow> segments_from x cur = [rev cur @ x]"
proof (induction x arbitrary: cur)
  case Nil
  show ?case by simp
next
  case (Cons a x)
  then have "take 2 x \<noteq> ''| ''" by (cases x) auto
  with Cons show ?case by (simp add: segments_from_Cons)
qed

lemma segments_from_separator:
  "CHR ''|'' \<notin> set x \<Longrightarrow>
   segments_from (x @ '' | '' @ rest) cur = (rev cur @ x) # segments_from rest []"
proof (induction x arbitrary: cur)
  case Nil
  show ?case by simp
next
  case (Cons a x)
  then have "take 2 (x @ '' | '' @ rest) \<noteq> ''| ''" by (cases x) auto
  with Cons show ?case by (simp add: segments_from_Cons)
qed

lemma segments_py_join:
  assumes "xs \<noteq> []" and "\<forall>x\<in>set xs. CHR ''|'' \<notin> set x"
  shows "segments (py_join '' | '' xs) = xs"
  using assms
proof (induction "'' | ''" xs rule: py_join.induct)
  case 1
  then show ?case by simp
next
  case (2 x)
  then show ?case by (simp add: segments_def segments_from_no_bar)
next
  case (3 x y ys)
  then have "segments (py_join '' | '' (y # ys)) = y # ys" by simp
  moreover have "segments_from (x @ '' | '' @ py_join '' | '' (y # ys)) [] =
                   x # segments_from (py_join '' | '' (y # ys)) []"
    using 3 segments_from_separator [of x "py_join '' | '' (y # ys)" "[]"] by simp
  ultimately show ?case by (simp add: segments_def)
qed

section \<open>The store only grows\<close>

lemma search_text_results:
  "fst (search_text self query_word language_filter context_words h) =
     (case language_filter of
        None \<Rightarrow> Inr (scan_rows query_word context_words (table_rows (h ! dataset self)))
      | Some f \<Rightarrow>
          if f = [] then Inr (scan_rows query_word context_words (table_rows (h ! dataset self)))
          else if language_dtype (h ! dataset self) = Object_dtype
               then Inr (scan_rows query_word context_words
                           (filter (language_mask f) (table_rows (h ! dataset self))))
               else Inl AttributeError)"
  by (simp add: search_text_def df_copy_def df_select_def new_table_def nth_append
           split: option.split)

lemma search_text_store:
  "\<exists>ext. snd (search_text self query_word language_filter context_words h) = h @ ext"
  by (simp add: search_text_def df_copy_def df_select_def new_table_def
           split: option.split)

lemma search_columns_store:
  "\<exists>ext. snd (search_columns self context_words query_row cols h) = h @ ext"
proof (induction cols arbitrary: h)
  case Nil
  show ?case by simp
next
  case (Cons col cols)
  show ?case
  proof (cases "query_row col")
    case None
    with Cons show ?thesis by simp
  next
    case (Some cell)
    show ?thesis
    proof (cases "py_strip cell = []")
      case True
      with Some Cons show ?thesis by simp
    next
      case False
      obtain r1 h1 where st: "search_text self (py_strip cell) (language_filter_of col)
                                 context_words h = (r1, h1)"
        by (cases "search_text self (py_strip cell) (language_filter_of col) context_words h")
      then obtain e1 where e1: "h1 = h @ e1"
        using search_text_store [of self "py_strip cell" "language_filter_of col" context_words h]
        by auto
      show ?thesis
      proof (cases r1)
        case (Inl e)
        with Some False st e1 show ?thesis by simp
      next
        case (Inr results)
        obtain r2 h2 where sc: "search_columns self context_words query_row cols h1 = (r2, h2)"
          by (cases "search_columns self context_words query_row cols h1")
        then obtain e2 where e2: "h2 = h1 @ e2" using Cons [of h1] by auto
        from Some False st Inr sc e1 e2 show ?thesis by (cases r2) simp_all
      qed
    qed
  qed
qed

lemma search_rows_store:
  "\<exists>ext. snd (search_rows self context_words cols query_rows h) = h @ ext"
proof (induction query_rows arbitrary: h)
  case Nil
  show ?case by simp
next
  case (Cons query_row rest)
  obtain r1 h1 where sc: "search_columns self context_words query_row cols h = (r1, h1)"
    by (cases "search_columns self context_words query_row cols h")
  then obtain e1 where e1: "h1 = h @ e1"
    using search_columns_store [of self context_words query_row cols h] by auto
  show ?case
  proof (cases r1)
    case (Inl e)
    with sc e1 show ?thesis by simp
  next
    case (Inr results)
    obtain r2 h2 where sr: "search_rows self context_words cols rest h1 = (r2, h2)"
      by (cases "search_rows self context_words cols rest h1")
    then obtain e2 where e2: "h2 = h1 @ e2" using Cons [of h1] by auto
    from sc Inr sr e1 e2 show ?thesis by (cases r2) simp_all
  qed
qed

lemma search_all_queries_store:
  "\<exists>ext. snd (search_all_queries self context_words h) = h @ ext"
proof -
  obtain r h' where a: "all_results_of self context_words h = (r, h')"
    by (cases "all_results_of self context_words h")
  then obtain e where "h' = h @ e"
    unfolding all_results_of_def
    using search_rows_store [of self context_words "query_columns (queries self)"
                               "q_rows (queries self)" h]
    by auto
  with a show ?thesis by (cases r) (simp_all add: search_all_queries_def)
qed

lemma perform_store: "\<exists>ext. perform self c h = h @ ext"
  by (cases c) (simp_all add: search_text_store search_all_queries_store)

lemma run_store: "\<exists>ext. run self cs h = h @ ext"
proof (induction cs arbitrary: h)
  case Nil
  show ?case by simp
next
  case (Cons c cs)
  obtain e1 where e1: "perform self c h = h @ e1" using perform_store by blast
  obtain e2 where "run self cs (h @ e1) = (h @ e1) @ e2" using Cons by blast
  with e1 show ?case by simp
qed

section \<open>A column of strings raises nothing\<close>

lemma search_text_returns:
  "language_dtype (h ! dataset self) = Object_dtype \<Longrightarrow>
   \<exists>results. fst (search_text self query_word language_filter context_words h) = Inr results"
  by (simp add: search_text_results split: option.split)

lemma search_columns_returns:
  assumes "dataset self < length h" and "language_dtype (h ! dataset self) = Object_dtype"
  shows "\<exists>results. fst (search_columns self context_words query_row cols h) = Inr results"
  using assms
proof (induction cols arbitrary: h)
  case Nil
  show ?case by simp
next
  case (Cons col cols)
  show ?case
  proof (cases "query_row col")
    case None
    with Cons show ?thesis by simp
  next
    case (Some cell)
    show ?thesis
    proof (cases "py_strip cell = []")
      case True
      with Some Cons show ?thesis by simp
    next
      case False
      obtain r1 h1 where st: "search_text self (py_strip cell) (language_filter_of col)
                                 context_words h = (r1, h1)"
        by (cases "search_text self (py_strip cell) (language_filter_of col) context_words h")
      then obtain e1 where e1: "h1 = h @ e1"
        using search_text_store [of self "py_strip cell" "language_filter_of col" context_words h]
        by auto
      from st obtain results where r1: "r1 = Inr results"
        using search_text_returns [OF Cons.prems(2), of "py_strip cell" "language_filter_of col"
                                     context_words]
        by auto
      have "dataset self < length h1" "language_dtype (h1 ! dataset self) = Object_dtype"
        using Cons.prems e1 by (simp_all add: nth_append)
      then obtain later where
        "fst (search_columns self context_words query_row cols h1) = Inr later"
        using Cons.IH by blast
      with Some False st r1 show ?thesis
        by (cases "search_columns self context_words query_row cols h1") simp
    qed
  qed
qed

lemma search_rows_returns:
  assumes "dataset self < length h" and "language_dtype (h ! dataset self) = Object_dtype"
  shows "\<exists>results. fst (search_rows self context_words cols query_rows h) = Inr results"
  using assms
proof (induction query_rows arbitrary: h)
  case Nil
  show ?case by simp
next
  case (Cons query_row rest)
  obtain r1 h1 where sc: "search_columns self context_words query_row cols h = (r1, h1)"
    by (cases "search_columns self context_words query_row cols h")
  then obtain e1 where e1: "h1 = h @ e1"
    using search_columns_store [of self context_words query_row cols h] by auto
  from sc obtain results where r1: "r1 = Inr results"
    using search_columns_returns [OF Cons.prems, of context_words query_row cols] by auto
  have "dataset self < length h1" "language_dtype (h1 ! dataset self) = Object_dtype"
    using Cons.prems e1 by (simp_all add: nth_append)
  then obtain later where "fst (search_rows self context_words cols rest h1) = Inr later"
    using Cons.IH by blast
  with sc r1 show ?case
    by (cases "search_rows self context_words cols rest h1") simp
qed

lemma scan_rows_member:
  "m \<in> set (scan_rows query_word context_words rows) \<Longrightarrow>
   \<exists>row\<in>set rows. r_itemid m = itemid row \<and> r_language m = languageisocode row \<and>
      THE_LAW row = Some (r_THE_LAW m) \<and> r_query_word m = query_word \<and>
      re_search (word_pattern query_word) (py_lower (r_THE_LAW m)) \<and>
      r_context m = get_context (r_THE_LAW m) query_word context_words"
  by (induction rows) (auto split: option.splits if_splits)

section \<open>Assembly and grouping\<close>

lemma merge_left_member:
  "row \<in> set (merge_left dt lt) \<Longrightarrow> THE_LAW row \<noteq> None \<Longrightarrow>
   itemid row \<in> itemid ` set dt \<and> itemid row \<in> law_itemid ` set lt"
  by (auto simp: merge_left_def with_law_def Let_def image_iff split: if_splits) metis

lemma assemble_member:
  "row \<in> set (assemble dt lt) \<Longrightarrow>
   THE_LAW row \<noteq> None \<and> itemid row \<in> itemid ` set dt \<and> itemid row \<in> law_itemid ` set lt"
  using merge_left_member by (fastforce simp: assemble_def)

lemma grouped_result_of_group:
  assumes "grp \<noteq> []"
  shows "\<exists>g. grouped_result_of (k, grp) = [g] \<and> summary_key g = k \<and>
             match_count g = length grp \<and>
             combined_context g =
               py_join '' | '' (filter (\<lambda>ctx. ctx \<noteq> []) (map r_context grp))"
proof -
  obtain first others where "grp = first # others" using assms by (cases grp) auto
  then show ?thesis by (cases k) (simp add: summary_key_def Let_def)
qed

lemma grouped_results_of_keys:
  assumes "\<forall>k\<in>set ks. filter (\<lambda>r. group_key r = k) rs \<noteq> []"
  shows "map summary_key
           (concat (map grouped_result_of
              (map (\<lambda>k. (k, filter (\<lambda>r. group_key r = k) rs)) ks))) = ks \<and>
         (\<forall>g\<in>set (concat (map grouped_result_of
              (map (\<lambda>k. (k, filter (\<lambda>r. group_key r = k) rs)) ks))).
            match_count g = length (filter (\<lambda>r. group_key r = summary_key g) rs) \<and>
            combined_context g =
              py_join '' | '' (filter (\<lambda>ctx. ctx \<noteq> [])
                (map r_context (filter (\<lambda>r. group_key r = summary_key g) rs))))"
  using assms
proof (induction ks)
  case Nil
  show ?case by simp
next
  case (Cons k ks)
  then have "filter (\<lambda>r. group_key r = k) rs \<noteq> []" by simp
  then obtain g where g: "grouped_result_of (k, filter (\<lambda>r. group_key r = k) rs) = [g]"
    "summary_key g = k"
    "match_count g = length (filter (\<lambda>r. group_key r = k) rs)"
    "combined_context g =
       py_join '' | '' (filter (\<lambda>ctx. ctx \<noteq> []) (map r_context (filter (\<lambda>r. group_key r = k) rs)))"
    using grouped_result_of_group by blast
  from Cons have "\<forall>k\<in>set ks. filter (\<lambda>r. group_key r = k) rs \<noteq> []" by simp
  with Cons.IH g show ?case by simp
qed

lemma groupby_summary:
  "map summary_key (concat (map grouped_result_of (groupby rs))) =
     sort (remdups (map group_key rs)) \<and>
   (\<forall>g\<in>set (concat (map grouped_result_of (groupby rs))).
      match_count g = length (filter (\<lambda>r. group_key r = summary_key g) rs) \<and>
      combined_context g =
        py_join '' | '' (filter (\<lambda>ctx. ctx \<noteq> [])
          (map r_context (filter (\<lambda>r. group_key r = summary_key g) rs))))"
proof -
  have "\<forall>k\<in>set (sort (remdups (map group_key rs))). filter (\<lambda>r. group_key r = k) rs \<noteq> []"
    by (auto simp: filter_empty_conv)
  then show ?thesis unfolding groupby_def by (rule grouped_results_of_keys)
qed

section \<open>The context window\<close>

lemma get_context_example:
  "get_context ''a b c match d e'' ''match'' 10 = ''a b c **match** d e''"
  by code_simp

lemma window_length:
  assumes "0 \<le> context_words"
  shows "length (py_slice words (start_idx text context_words char_pos)
                   (end_idx text words context_words char_pos)) \<le> nat (2 * context_words + 1)"
proof -
  have wp: "0 \<le> word_pos_of text char_pos" by (simp add: word_pos_of_def)
  show ?thesis
    using assms wp
    unfolding py_slice_def slice_bound_def start_idx_def end_idx_def Let_def
    by (simp add: min_def max_def) linarith
qed

text \<open>
  Where a match starts a token that is not the first of the text, the index that
  \<open>get_context\<close> centres the window on is that of the token before: the token of the
  match is the next one.
\<close>

lemma split_from_after_space:
  "xs \<noteq> [] \<Longrightarrow> is_space (last xs) \<Longrightarrow>
   split_from (xs @ ys) cur = split_from xs cur @ split_from ys []"
proof (induction xs arbitrary: cur)
  case Nil
  then show ?case by simp
next
  case (Cons c cs)
  show ?case
  proof (cases "cs = []")
    case True
    with Cons.prems show ?thesis by simp
  next
    case False
    with Cons show ?thesis by simp
  qed
qed

lemma split_from_token:
  "cur \<noteq> [] \<Longrightarrow>
   split_from cs cur =
     (rev cur @ takeWhile (\<lambda>c. \<not> is_space c) cs) #
       split_from (dropWhile (\<lambda>c. \<not> is_space c) cs) []"
  by (induction cs arbitrary: cur) auto

lemma py_split_token_start:
  assumes "0 < i" and "i < length text"
    and "is_space (text ! (i - 1))" and "\<not> is_space (text ! i)"
  shows "py_split text ! length (py_split (take i text)) =
           takeWhile (\<lambda>c. \<not> is_space c) (drop i text)"
proof -
  have ne: "take i text \<noteq> []" using assms(1,2) by auto
  have "last (take i text) = take i text ! (length (take i text) - 1)"
    using ne by (rule last_conv_nth)
  also have "\<dots> = text ! (i - 1)"
    using assms(1,2) by simp
  finally have "last (take i text) = text ! (i - 1)" .
  then have sp: "is_space (last (take i text))" using assms(3) by simp
  have "split_from (take i text @ drop i text) [] =
          split_from (take i text) [] @ split_from (drop i text) []"
    by (rule split_from_after_space [OF ne sp])
  then have parts: "py_split text = py_split (take i text) @ split_from (drop i text) []"
    by (simp add: py_split_def)
  obtain c cs where d: "drop i text = c # cs" "c = text ! i"
    using assms(2) by (metis Cons_nth_drop_Suc)
  with assms(4) have "split_from (drop i text) [] =
      takeWhile (\<lambda>c. \<not> is_space c) (drop i text) #
        split_from (dropWhile (\<lambda>c. \<not> is_space c) cs) []"
    using split_from_token [of "[c]" cs] by simp
  with parts show ?thesis by (simp add: nth_append)
qed

lemma word_pos_before_token_start:
  assumes "0 < i" and "i < length text"
    and "is_space (text ! (i - 1))" and "\<not> is_space (text ! i)"
    and "py_split (take i text) \<noteq> []"
  shows "py_split text ! (nat (word_pos_of text i) + 1) =
           takeWhile (\<lambda>c. \<not> is_space c) (drop i text)"
proof -
  from assms(5) have "0 < length (py_split (take i text))" by simp
  then have "nat (word_pos_of text i) + 1 = length (py_split (take i text))"
    unfolding word_pos_of_def by linarith
  with py_split_token_start [OF assms(1-4)] show ?thesis by simp
qed

text \<open>
  The pattern that the code builds is the regular expression of the lower-cased term
  taken as one literal, between word boundaries.
\<close>

lemma literal_regex_match:
  "match_ends (word_bounded (Lit lit)) s i \<noteq> [] \<longleftrightarrow> match_at (WordBounded lit) s i"
  by (cases "at_boundary s i"; cases "take (length lit) (drop i s) = lit";
      cases "at_boundary s (i + length lit)") (simp_all add: word_bounded_def)

lemma re_search_literal_regex:
  "re_search (word_pattern query) s = regex_search (word_bounded (Lit (py_lower query))) s"
  unfolding re_search_def regex_search_def word_pattern_def
  by (simp only: literal_regex_match)

lemma py_join_concat:
  "py_join sep xs =
     (if xs = [] then [] else concat (map (\<lambda>x. x @ sep) (butlast xs)) @ last xs)"
  by (induction sep xs rule: py_join.induct) simp_all

lemma groupby_nonempty:
  assumes "rs \<noteq> []"
  shows "concat (map grouped_result_of (groupby rs)) \<noteq> []"
proof -
  have "map summary_key (concat (map grouped_result_of (groupby rs))) =
          sort (remdups (map group_key rs))"
    using groupby_summary by blast
  moreover have "set (sort (remdups (map group_key rs))) \<noteq> {}" using assms by simp
  ultimately show ?thesis by (metis list.map_disc_iff set_empty)
qed

section \<open>The token of a match\<close>







lemma run_after_no_space: "c \<in> set (run_after text i) \<Longrightarrow> \<not> is_space c"
  unfolding run_after_def by (auto dest: set_takeWhileD)
















section \<open>The small corpus, searched\<close>

lemma example_summary:
  "fst (search_all_queries example_searcher 2 example_store) =
     Inr [\<lparr>g_itemid = ''1001'', g_language = Some ''fre'', g_query_word = ''subsistance'',
           g_query_language = Some ''French'',
           combined_context = ''...morale et la **subsistance** des...'', match_count = 1,
           g_THE_LAW = ''La gene morale et la subsistance des familles.''\<rparr>,
          \<lparr>g_itemid = ''1002'', g_language = Some ''eng'', g_query_word = ''destitution'',
           g_query_language = Some ''English'',
           combined_context = ''**Destitution** and the... | **Destitution** and the...'',
           match_count = 2, g_THE_LAW = ''Destitution and the means of subsistence.''\<rparr>,
          \<lparr>g_itemid = ''1003'', g_language = Some ''fre'', g_query_word = ''destitution'',
           g_query_language = Some ''French'', combined_context = ''La **destitution** des...'',
           match_count = 1, g_THE_LAW = ''La destitution des familles.''\<rparr>]"
  by code_simp

lemma example_all_results:
  "fst (all_results_of example_searcher 2 example_store) =
     Inr [\<lparr>r_itemid = ''1002'', r_language = Some ''eng'', r_query_word = ''destitution'',
           r_context = ''**Destitution** and the...'',
           r_THE_LAW = ''Destitution and the means of subsistence.'',
           r_query_language = Some ''English''\<rparr>,
          \<lparr>r_itemid = ''1003'', r_language = Some ''fre'', r_query_word = ''destitution'',
           r_context = ''La **destitution** des...'',
           r_THE_LAW = ''La destitution des familles.'',
           r_query_language = Some ''French''\<rparr>,
          \<lparr>r_itemid = ''1002'', r_language = Some ''eng'', r_query_word = ''destitution'',
           r_context = ''**Destitution** and the...'',
           r_THE_LAW = ''Destitution and the means of subsistence.'',
           r_query_language = Some ''English''\<rparr>,
          \<lparr>r_itemid = ''1001'', r_language = Some ''fre'', r_query_word = ''subsistance'',
           r_context = ''...morale et la **subsistance** des...'',
           r_THE_LAW = ''La gene morale et la subsistance des familles.'',
           r_query_language = Some ''French''\<rparr>]"
  by code_simp

lemma example_uncoded_raises:
  "language_dtype (example_uncoded_store ! dataset example_uncoded_searcher) = Float64_dtype \<and>
   fst (search_text example_uncoded_searcher ''destitution'' (Some ''eng'') 10
          example_uncoded_store) = Inl AttributeError \<and>
   fst (search_all_queries example_uncoded_searcher 2 example_uncoded_store) =
     Inl AttributeError"
  by code_simp

section \<open>Properties\<close>

text \<open>
  C1. When the loops over the query table return the match records,
  \<open>search_all_queries\<close> returns one summary record per distinct pair of case
  identifier and query term that has a match record: the keys of the summary records
  are distinct and are the keys of the match records. The \<open>match_count\<close> of a summary
  record is the number of match records of its pair. Its \<open>combined_context\<close> is the
  non-empty contexts of those records, in their order, each but the last followed by
  \<open>" | "\<close>; where none of them has a \<open>|\<close>, cutting the \<open>combined_context\<close> at the
  separator gives them back.
\<close>

theorem search_all_queries_one_summary_per_pair:
  assumes "all_results_of self context_words h = (Inr all_results, h')"
  shows "\<exists>summary.
           search_all_queries self context_words h = (Inr summary, h') \<and>
           distinct (map summary_key summary) \<and>
           set (map summary_key summary) = set (map group_key all_results) \<and>
           (\<forall>g\<in>set summary.
              match_count g = length (filter (\<lambda>r. group_key r = summary_key g) all_results) \<and>
              combined_context g =
                py_join '' | '' (filter (\<lambda>ctx. ctx \<noteq> [])
                  (map r_context (filter (\<lambda>r. group_key r = summary_key g) all_results))) \<and>
              combined_context g =
                (if folded_contexts all_results (summary_key g) = [] then []
                 else concat (map (\<lambda>ctx. ctx @ '' | '')
                                (butlast (folded_contexts all_results (summary_key g)))) @
                      last (folded_contexts all_results (summary_key g))) \<and>
              (folded_contexts all_results (summary_key g) \<noteq> [] \<and>
               (\<forall>ctx\<in>set (folded_contexts all_results (summary_key g)). CHR ''|'' \<notin> set ctx) \<longrightarrow>
               segments (combined_context g) = folded_contexts all_results (summary_key g)))"
proof -
  define summary where "summary = concat (map grouped_result_of (groupby all_results))"
  have returned: "search_all_queries self context_words h = (Inr summary, h')"
    using assms by (simp add: search_all_queries_def summary_def groupby_def)
  have keys: "map summary_key summary = sort (remdups (map group_key all_results))"
    unfolding summary_def using groupby_summary by blast
  have one: "distinct (map summary_key summary)"
    unfolding keys by simp
  have every: "set (map summary_key summary) = set (map group_key all_results)"
    unfolding keys by simp
  have folded: "match_count g = length (filter (\<lambda>r. group_key r = summary_key g) all_results) \<and>
      combined_context g = py_join '' | '' (folded_contexts all_results (summary_key g))"
    if "g \<in> set summary" for g
    using that groupby_summary [of all_results]
    unfolding summary_def folded_contexts_def by blast
  have "combined_context g =
          (if folded_contexts all_results (summary_key g) = [] then []
           else concat (map (\<lambda>ctx. ctx @ '' | '')
                          (butlast (folded_contexts all_results (summary_key g)))) @
                last (folded_contexts all_results (summary_key g))) \<and>
        (folded_contexts all_results (summary_key g) \<noteq> [] \<and>
         (\<forall>ctx\<in>set (folded_contexts all_results (summary_key g)). CHR ''|'' \<notin> set ctx) \<longrightarrow>
         segments (combined_context g) = folded_contexts all_results (summary_key g))"
    if "g \<in> set summary" for g
  proof -
    have cc: "combined_context g = py_join '' | '' (folded_contexts all_results (summary_key g))"
      using folded [OF that] by blast
    show ?thesis
      unfolding cc using py_join_concat [of "'' | ''"] segments_py_join by auto
  qed
  with folded have "\<forall>g\<in>set summary.
      match_count g = length (filter (\<lambda>r. group_key r = summary_key g) all_results) \<and>
      combined_context g =
        py_join '' | '' (filter (\<lambda>ctx. ctx \<noteq> [])
          (map r_context (filter (\<lambda>r. group_key r = summary_key g) all_results))) \<and>
      combined_context g =
        (if folded_contexts all_results (summary_key g) = [] then []
         else concat (map (\<lambda>ctx. ctx @ '' | '')
                        (butlast (folded_contexts all_results (summary_key g)))) @
              last (folded_contexts all_results (summary_key g))) \<and>
      (folded_contexts all_results (summary_key g) \<noteq> [] \<and>
       (\<forall>ctx\<in>set (folded_contexts all_results (summary_key g)). CHR ''|'' \<notin> set ctx) \<longrightarrow>
       segments (combined_context g) = folded_contexts all_results (summary_key g))"
    unfolding folded_contexts_def by blast
  with returned one every show ?thesis by blast
qed

theorem search_all_queries_one_summary_per_pair_witness:
  "\<exists>summary.
     fst (search_all_queries example_searcher 2 example_store) = Inr summary \<and>
     distinct (map summary_key summary) \<and>
     map summary_key summary =
       [(''1001'', ''subsistance''), (''1002'', ''destitution''), (''1003'', ''destitution'')] \<and>
     map match_count summary = [1, 2, 1] \<and>
     map combined_context summary =
       [''...morale et la **subsistance** des...'',
        ''**Destitution** and the... | **Destitution** and the...'',
        ''La **destitution** des...''] \<and>
     map (\<lambda>g. segments (combined_context g)) summary =
       [[''...morale et la **subsistance** des...''],
        [''**Destitution** and the...'', ''**Destitution** and the...''],
        [''La **destitution** des...'']]"
proof -
  obtain all_results where ar:
    "fst (all_results_of example_searcher 2 example_store) = Inr all_results"
    using example_all_results by blast
  then have h: "all_results_of example_searcher 2 example_store =
                  (Inr all_results, snd (all_results_of example_searcher 2 example_store))"
    by (metis prod.collapse)
  from search_all_queries_one_summary_per_pair [OF h]
  obtain summary where s:
    "search_all_queries example_searcher 2 example_store =
       (Inr summary, snd (all_results_of example_searcher 2 example_store))"
    "distinct (map summary_key summary)"
    "\<forall>g\<in>set summary.
       folded_contexts all_results (summary_key g) \<noteq> [] \<and>
       (\<forall>ctx\<in>set (folded_contexts all_results (summary_key g)). CHR ''|'' \<notin> set ctx) \<longrightarrow>
       segments (combined_context g) = folded_contexts all_results (summary_key g)"
    by blast
  from s(1) have summary: "Inr summary = fst (search_all_queries example_searcher 2 example_store)"
    by simp
  have rows: "summary =
     [\<lparr>g_itemid = ''1001'', g_language = Some ''fre'', g_query_word = ''subsistance'',
       g_query_language = Some ''French'',
       combined_context = ''...morale et la **subsistance** des...'', match_count = 1,
       g_THE_LAW = ''La gene morale et la subsistance des familles.''\<rparr>,
      \<lparr>g_itemid = ''1002'', g_language = Some ''eng'', g_query_word = ''destitution'',
       g_query_language = Some ''English'',
       combined_context = ''**Destitution** and the... | **Destitution** and the...'',
       match_count = 2, g_THE_LAW = ''Destitution and the means of subsistence.''\<rparr>,
      \<lparr>g_itemid = ''1003'', g_language = Some ''fre'', g_query_word = ''destitution'',
       g_query_language = Some ''French'', combined_context = ''La **destitution** des...'',
       match_count = 1, g_THE_LAW = ''La destitution des familles.''\<rparr>]"
    using summary unfolding example_summary by simp
  have all_results: "all_results =
     [\<lparr>r_itemid = ''1002'', r_language = Some ''eng'', r_query_word = ''destitution'',
           r_context = ''**Destitution** and the...'',
           r_THE_LAW = ''Destitution and the means of subsistence.'',
           r_query_language = Some ''English''\<rparr>,
          \<lparr>r_itemid = ''1003'', r_language = Some ''fre'', r_query_word = ''destitution'',
           r_context = ''La **destitution** des...'',
           r_THE_LAW = ''La destitution des familles.'',
           r_query_language = Some ''French''\<rparr>,
          \<lparr>r_itemid = ''1002'', r_language = Some ''eng'', r_query_word = ''destitution'',
           r_context = ''**Destitution** and the...'',
           r_THE_LAW = ''Destitution and the means of subsistence.'',
           r_query_language = Some ''English''\<rparr>,
          \<lparr>r_itemid = ''1001'', r_language = Some ''fre'', r_query_word = ''subsistance'',
           r_context = ''...morale et la **subsistance** des...'',
           r_THE_LAW = ''La gene morale et la subsistance des familles.'',
           r_query_language = Some ''French''\<rparr>]"
    using ar unfolding example_all_results by simp
  have folded: "map (\<lambda>g. folded_contexts all_results (summary_key g)) summary =
       [[''...morale et la **subsistance** des...''],
        [''**Destitution** and the...'', ''**Destitution** and the...''],
        [''La **destitution** des...'']]"
    unfolding rows all_results by (simp add: folded_contexts_def group_key_def summary_key_def)
  have "\<forall>g\<in>set summary. segments (combined_context g) = folded_contexts all_results (summary_key g)"
  proof
    fix g assume g: "g \<in> set summary"
    then have "folded_contexts all_results (summary_key g) \<in>
                 set (map (\<lambda>g. folded_contexts all_results (summary_key g)) summary)"
      by simp
    then have "folded_contexts all_results (summary_key g) \<noteq> [] \<and>
       (\<forall>ctx\<in>set (folded_contexts all_results (summary_key g)). CHR ''|'' \<notin> set ctx)"
      unfolding folded by auto
    with s(3) g show "segments (combined_context g) = folded_contexts all_results (summary_key g)"
      by blast
  qed
  then have "map (\<lambda>g. segments (combined_context g)) summary =
               map (\<lambda>g. folded_contexts all_results (summary_key g)) summary"
    by simp
  with folded have segs: "map (\<lambda>g. segments (combined_context g)) summary =
       [[''...morale et la **subsistance** des...''],
        [''**Destitution** and the...'', ''**Destitution** and the...''],
        [''La **destitution** des...'']]"
    by simp
  have "map summary_key summary =
       [(''1001'', ''subsistance''), (''1002'', ''destitution''), (''1003'', ''destitution'')]"
    "map match_count summary = [1, 2, 1]"
    "map combined_context summary =
       [''...morale et la **subsistance** des...'',
        ''**Destitution** and the... | **Destitution** and the...'',
        ''La **destitution** des...'']"
    unfolding rows by (simp_all add: summary_key_def)
  with summary s(2) segs show ?thesis by metis
qed




text \<open>
  C3. The claim does not hold of the code. \<open>search_text\<close> escapes the term
  (\<open>re_search_literal_regex\<close>), so the term \<open>(moyens de)? subsistance\<close> is searched as
  that literal string: on the example corpus the search returns nothing, although the
  regular expression, between word boundaries, matches the lower-cased text of case
  \<open>1001\<close>.
\<close>

theorem search_text_escapes_regex_term:
  "regex_search (word_bounded (Seq (Opt (Lit ''moyens de'')) (Lit '' subsistance'')))
     (py_lower ''La gene morale et la subsistance des familles.'') \<and>
   fst (search_text example_searcher ''(moyens de)? subsistance'' (Some ''FRE'') 10
          example_store) = Inr []"
  by code_simp

text \<open>
  C4. After \<open>__init__\<close> every row of the corpus has a law text, and an identifier that
  only one of the two tables has is not in the corpus. No run of searches changes the
  table that \<open>self.dataset\<close> refers to, so both hold for the whole run.
\<close>

theorem corpus_invariant_preserved:
  assumes "init dataset_file law_file queries_file rows h = (self, h0)"
  shows "(\<forall>row\<in>set (table_rows (h0 ! dataset self)). THE_LAW row \<noteq> None) \<and>
         (\<forall>i. (i \<in> law_itemid ` set (law self) \<and> i \<notin> itemid ` set (df_all self)) \<or>
              (i \<in> itemid ` set (df_all self) \<and> i \<notin> law_itemid ` set (law self)) \<longrightarrow>
              i \<notin> itemid ` set (table_rows (h0 ! dataset self))) \<and>
         run self calls h0 ! dataset self = h0 ! dataset self"
proof -
  from assms have self: "dataset self = length h" "df_all self = dataset_file"
    "law self = read_law law_file rows"
    and h0: "h0 = h @ [\<lparr>language_dtype = read_csv_dtype (map languageisocode dataset_file),
                        table_rows = assemble dataset_file (read_law law_file rows)\<rparr>]"
    by (auto simp: init_def new_table_def Let_def)
  have corpus: "table_rows (h0 ! dataset self) = assemble (df_all self) (law self)"
    using self h0 by simp
  obtain e where "run self calls h0 = h0 @ e" using run_store by blast
  then have kept: "run self calls h0 ! dataset self = h0 ! dataset self"
    using self h0 by (simp add: nth_append)
  show ?thesis unfolding kept corpus using assemble_member by blast
qed

theorem corpus_invariant_preserved_witness:
  "init example_dataset_file example_law_file example_queries None [] =
     (example_searcher, example_store) \<and>
   ''1005'' \<notin> itemid ` set (table_rows (example_store ! dataset example_searcher)) \<and>
   ''1004'' \<notin> itemid ` set (table_rows (example_store ! dataset example_searcher)) \<and>
   run example_searcher [SearchText ''destitution'' (Some ''eng'') 10, SearchAllQueries 2]
     example_store ! dataset example_searcher = example_store ! dataset example_searcher"
proof -
  have h: "init example_dataset_file example_law_file example_queries None [] =
             (example_searcher, example_store)"
    by (simp add: example_searcher_def example_store_def)
  note inv = corpus_invariant_preserved
               [OF h, of "[SearchText ''destitution'' (Some ''eng'') 10, SearchAllQueries 2]"]
  have a: "''1005'' \<in> law_itemid ` set (law example_searcher) \<and>
           ''1005'' \<notin> itemid ` set (df_all example_searcher)"
    by code_simp
  have b: "''1004'' \<in> itemid ` set (df_all example_searcher) \<and>
           ''1004'' \<notin> law_itemid ` set (law example_searcher)"
    by code_simp
  from inv a
  have "''1005'' \<notin> itemid ` set (table_rows (example_store ! dataset example_searcher))"
    by blast
  moreover from inv b
  have "''1004'' \<notin> itemid ` set (table_rows (example_store ! dataset example_searcher))"
    by blast
  ultimately show ?thesis using h inv by blast
qed

text \<open>
  C5. The claim does not hold of the code. In \<open>a b c match d e\<close> the pattern matches at
  offset 6; three tokens precede that offset and \<open>match\<close> is the token of index 3, but
  \<open>get_context\<close> subtracts one and centres the window on index 2, the token \<open>c\<close>. With
  radius 0 the context is that token alone, without the match.
\<close>

theorem word_pos_off_by_one:
  "re_finditer (word_pattern ''match'') (py_lower ''a b c match d e'') = [6] \<and>
   length (py_split (take 6 ''a b c match d e'')) = 3 \<and>
   py_split ''a b c match d e'' ! 3 = ''match'' \<and>
   word_pos_of ''a b c match d e'' 6 = 2 \<and>
   get_context ''a b c match d e'' ''match'' 0 = ''...c...''"
  by code_simp

text \<open>
  C6. The claim does not hold of the code. With radius 1 the context of \<open>match\<close> in
  \<open>a b c match d e\<close> is the window of the words 1 to 3: two words before the matched
  word and none after it. The example of the claim, with radius 10, holds
  (\<open>get_context_example\<close>), and so does the rule for the ellipses
  (\<open>match_context_parts\<close>).
\<close>

theorem context_window_not_centred:
  "start_idx ''a b c match d e'' 1 6 = 1 \<and>
   end_idx ''a b c match d e'' (py_split ''a b c match d e'') 1 6 = 4 \<and>
   get_context ''a b c match d e'' ''match'' 1 = ''...b c **match**...''"
  by code_simp

text \<open>
  C7. As stated the claim fails: a token \<open>|\<close> of the text stands between blanks in a
  context and reads as a separator. What holds for a text with \<open>n\<close> matches, \<open>n\<close> at
  least 2, is that the result is the \<open>n\<close> contexts, one per match, joined by \<open>" | "\<close>;
  the segments delimited by the separator are these contexts, and so \<open>n\<close> of them,
  when the text has no character \<open>|\<close>.
\<close>

theorem get_context_joined_segments:
  assumes "re_finditer (word_pattern query) (py_lower text) = matches"
    and "2 \<le> length matches"
  shows "get_context text query context_words =
           py_join '' | ''
             (map (match_context text (py_split text) (word_pattern query) context_words) matches) \<and>
         length (map (match_context text (py_split text) (word_pattern query) context_words)
                   matches) = length matches \<and>
         (CHR ''|'' \<notin> set text \<longrightarrow>
            segments (get_context text query context_words) =
              map (match_context text (py_split text) (word_pattern query) context_words) matches \<and>
            length (segments (get_context text query context_words)) = length matches)"
proof -
  from assms(2) have ne: "matches \<noteq> []" by auto
  with assms(1) have gc: "get_context text query context_words =
           py_join '' | ''
             (map (match_context text (py_split text) (word_pattern query) context_words) matches)"
    by (simp add: get_context_def Let_def)
  have "segments (get_context text query context_words) =
          map (match_context text (py_split text) (word_pattern query) context_words) matches"
    if "CHR ''|'' \<notin> set text"
  proof -
    have "\<forall>x\<in>set (map (match_context text (py_split text) (word_pattern query) context_words)
                      matches). CHR ''|'' \<notin> set x"
      using that match_context_chars by fastforce
    with ne show ?thesis unfolding gc by (simp add: segments_py_join)
  qed
  with gc show ?thesis by simp
qed

theorem get_context_joined_segments_witness:
  "re_finditer (word_pattern ''aide'') (py_lower ''Aide ou aide'') = [0, 8] \<and>
   get_context ''Aide ou aide'' ''aide'' 0 = ''**Aide**... | ...ou...'' \<and>
   length (segments (get_context ''Aide ou aide'' ''aide'' 0)) = 2"
proof -
  have m: "re_finditer (word_pattern ''aide'') (py_lower ''Aide ou aide'') = [0, 8]"
    by code_simp
  have n: "2 \<le> length [0::nat, 8]" by simp
  have c: "CHR ''|'' \<notin> set ''Aide ou aide''" by simp
  have g: "get_context ''Aide ou aide'' ''aide'' 0 = ''**Aide**... | ...ou...''"
    by code_simp
  from get_context_joined_segments [OF m n, of 0] c
  have "length (segments (get_context ''Aide ou aide'' ''aide'' 0)) = length [0::nat, 8]"
    by blast
  with m g show ?thesis by simp
qed

theorem get_context_segments_counterexample:
  "length (re_finditer (word_pattern ''x'') (py_lower ''x | x'')) = 2 \<and>
   get_context ''x | x'' ''x'' 10 = ''**x** | **x** | **x** | **x**'' \<and>
   length (segments (get_context ''x | x'' ''x'' 10)) = 4"
  by code_simp

text \<open>
  C8. With a non-empty language filter, every match record that \<open>search_text\<close> returns
  comes from a row whose language code, lower-cased, is equal to the lower-cased
  filter.
\<close>

theorem search_text_language_filter:
  assumes "language_filter \<noteq> []"
    and "fst (search_text self query_word (Some language_filter) context_words h) = Inr results"
    and "m \<in> set results"
  shows "\<exists>code. r_language m = Some code \<and> py_lower code = py_lower language_filter"
proof -
  from assms(1,2) have "results = scan_rows query_word context_words
                       (filter (language_mask language_filter) (table_rows (h ! dataset self)))"
    by (simp add: search_text_results split: if_splits)
  with assms(3) obtain row where "row \<in> set (table_rows (h ! dataset self))"
    "language_mask language_filter row" "r_language m = languageisocode row"
    using scan_rows_member by fastforce
  then show ?thesis by (auto simp: language_mask_def split: option.splits)
qed

theorem search_text_language_filter_witness:
  "fst (search_text example_searcher ''destitution'' (Some ''eng'') 10 example_store) =
     Inr [\<lparr>r_itemid = ''1002'', r_language = Some ''eng'', r_query_word = ''destitution'',
           r_context = ''**Destitution** and the means of subsistence.'',
           r_THE_LAW = ''Destitution and the means of subsistence.'',
           r_query_language = None\<rparr>] \<and>
   (\<exists>code. r_language
      \<lparr>r_itemid = ''1002'', r_language = Some ''eng'', r_query_word = ''destitution'',
       r_context = ''**Destitution** and the means of subsistence.'',
       r_THE_LAW = ''Destitution and the means of subsistence.'',
       r_query_language = None\<rparr> = Some code \<and> py_lower code = py_lower ''eng'')"
proof -
  have r: "fst (search_text example_searcher ''destitution'' (Some ''eng'') 10 example_store) =
     Inr [\<lparr>r_itemid = ''1002'', r_language = Some ''eng'', r_query_word = ''destitution'',
           r_context = ''**Destitution** and the means of subsistence.'',
           r_THE_LAW = ''Destitution and the means of subsistence.'',
           r_query_language = None\<rparr>]"
    by code_simp
  have f: "''eng'' \<noteq> []" by simp
  have m: "\<lparr>r_itemid = ''1002'', r_language = Some ''eng'', r_query_word = ''destitution'',
       r_context = ''**Destitution** and the means of subsistence.'',
       r_THE_LAW = ''Destitution and the means of subsistence.'',
       r_query_language = None\<rparr>
     \<in> set [\<lparr>r_itemid = ''1002'', r_language = Some ''eng'', r_query_word = ''destitution'',
           r_context = ''**Destitution** and the means of subsistence.'',
           r_THE_LAW = ''Destitution and the means of subsistence.'',
           r_query_language = None\<rparr>]"
    by simp
  from search_text_language_filter [OF f r m] r show ?thesis by blast
qed

text \<open>
  C9. When the loops over the query table end with no match record,
  \<open>search_all_queries\<close> returns the empty table, and it returns a table that is not
  empty when they end with match records. It raises only what the loops raise. With
  a language column of strings the loops raise nothing, so the search ends in a table,
  the empty one when there is no match.
\<close>

theorem search_all_queries_no_match_empty:
  assumes "dataset self < length h"
  shows "(\<forall>h'. all_results_of self context_words h = (Inr [], h') \<longrightarrow>
              search_all_queries self context_words h = (Inr [], h')) \<and>
         (\<forall>all_results h'.
            all_results_of self context_words h = (Inr all_results, h') \<and> all_results \<noteq> [] \<longrightarrow>
            (\<exists>summary. search_all_queries self context_words h = (Inr summary, h') \<and>
                       summary \<noteq> [])) \<and>
         (\<forall>e h'. all_results_of self context_words h = (Inl e, h') \<longrightarrow>
                search_all_queries self context_words h = (Inl e, h')) \<and>
         (language_dtype (h ! dataset self) = Object_dtype \<longrightarrow>
            (\<exists>all_results h'. all_results_of self context_words h = (Inr all_results, h')))"
proof -
  have empty: "search_all_queries self context_words h = (Inr [], h')"
    if "all_results_of self context_words h = (Inr [], h')" for h'
    using that by (simp add: search_all_queries_def)
  have some: "\<exists>summary. search_all_queries self context_words h = (Inr summary, h') \<and>
                         summary \<noteq> []"
    if "all_results_of self context_words h = (Inr all_results, h')" "all_results \<noteq> []"
    for all_results h'
    using that groupby_nonempty [of all_results] by (simp add: search_all_queries_def)
  have failed: "search_all_queries self context_words h = (Inl e, h')"
    if "all_results_of self context_words h = (Inl e, h')" for e h'
    using that by (simp add: search_all_queries_def)
  have returns: "\<exists>all_results h'. all_results_of self context_words h = (Inr all_results, h')"
    if strings: "language_dtype (h ! dataset self) = Object_dtype"
  proof -
    obtain all_results where
      "fst (all_results_of self context_words h) = Inr all_results"
      unfolding all_results_of_def using search_rows_returns [OF assms strings] by blast
    then have "all_results_of self context_words h =
                 (Inr all_results, snd (all_results_of self context_words h))"
      by (metis prod.collapse)
    then show ?thesis by blast
  qed
  from empty some failed returns show ?thesis by blast
qed

theorem search_all_queries_no_match_empty_witness:
  "dataset example_unmatched_searcher < length example_store \<and>
   language_dtype (example_store ! dataset example_unmatched_searcher) = Object_dtype \<and>
   fst (all_results_of example_unmatched_searcher 10 example_store) = Inr [] \<and>
   fst (search_all_queries example_unmatched_searcher 10 example_store) = Inr []"
proof -
  have d: "dataset example_unmatched_searcher < length example_store" by code_simp
  have t: "language_dtype (example_store ! dataset example_unmatched_searcher) = Object_dtype"
    by code_simp
  have r: "fst (all_results_of example_unmatched_searcher 10 example_store) = Inr []"
    by code_simp
  then have h: "all_results_of example_unmatched_searcher 10 example_store =
                  (Inr [], snd (all_results_of example_unmatched_searcher 10 example_store))"
    by (metis prod.collapse)
  from search_all_queries_no_match_empty [OF d, of 10] h
  have "search_all_queries example_unmatched_searcher 10 example_store =
          (Inr [], snd (all_results_of example_unmatched_searcher 10 example_store))"
    by blast
  with d t r show ?thesis by simp
qed

text \<open>
  C10. \<open>search_text\<close> works on a copy: every table that the store held before the call
  is unchanged after it, the corpus among them, and a second call with the same
  arguments has the same outcome, the same match records.
\<close>

theorem search_text_leaves_corpus:
  assumes "dataset self < length h"
  shows "take (length h) (snd (search_text self query_word language_filter context_words h)) = h \<and>
         snd (search_text self query_word language_filter context_words h) ! dataset self =
           h ! dataset self \<and>
         fst (search_text self query_word language_filter context_words
               (snd (search_text self query_word language_filter context_words h))) =
           fst (search_text self query_word language_filter context_words h)"
proof -
  obtain e where e: "snd (search_text self query_word language_filter context_words h) = h @ e"
    using search_text_store by blast
  have same: "(h @ e) ! dataset self = h ! dataset self"
    using assms by (simp add: nth_append)
  show ?thesis unfolding e search_text_results same by simp
qed

theorem search_text_leaves_corpus_witness:
  "dataset example_searcher < length example_store \<and>
   snd (search_text example_searcher ''destitution'' (Some ''fre'') 10 example_store)
     ! dataset example_searcher = example_store ! dataset example_searcher \<and>
   fst (search_text example_searcher ''destitution'' (Some ''fre'') 10
         (snd (search_text example_searcher ''destitution'' (Some ''fre'') 10 example_store))) =
     fst (search_text example_searcher ''destitution'' (Some ''fre'') 10 example_store)"
proof -
  have h: "dataset example_searcher < length example_store" by code_simp
  from search_text_leaves_corpus [OF h, of "''destitution''" "Some ''fre''" 10] h
  show ?thesis by blast
qed

end
